theory Spec2Isabelle
  imports Complex_Main "HOL-Library.Multiset" "HOL-Library.Code_Target_Numeral"
begin

section \<open>Data model of the transcript editor (EditorWindow.tsx)\<close>

text \<open>
  The TypeScript interfaces \<^verbatim>\<open>TranscriptSegment\<close> and \<^verbatim>\<open>TranscriptionResult\<close>.
  The field \<^verbatim>\<open>id\<close> is \<open>id_seg\<close> and the field \<^verbatim>\<open>text\<close> is \<open>text_seg\<close> here
  (both names are taken in Isabelle). A finite JavaScript \<^verbatim>\<open>number\<close> that holds a time
  in seconds is modelled by its value, a \<open>real\<close>. The editor only stores and compares
  these numbers; where the code computes with them (\<^verbatim>\<open>formatTime\<close>), the rounding to
  binary64 is part of the model.
\<close>

record TranscriptSegment =
  id_seg :: string
  text_seg :: string
  start_time :: real
  end_time :: real
  speaker :: string

record TranscriptionResult =
  segments :: "TranscriptSegment list"
  full_text :: string
  duration :: real

text \<open>
  An IPC call made through \<^verbatim>\<open>invoke\<close>: the command name, the \<^verbatim>\<open>recordingDir\<close>
  argument and the \<^verbatim>\<open>transcript\<close> argument.
\<close>

record invocation =
  command :: string
  arg_recordingDir :: string
  arg_transcript :: TranscriptionResult

text \<open>
  The state hooks of the component \<^verbatim>\<open>EditorWindow\<close> that the editing and saving
  handlers read or write (\<^verbatim>\<open>segments\<close> and \<^verbatim>\<open>duration\<close> carry the suffix
  \<open>_st\<close>), together with the list of IPC calls made so far. The hooks \<^verbatim>\<open>summary\<close>
  and \<^verbatim>\<open>summarizing\<close> are left out: only the summary panel uses them.
\<close>

record EditorWindow =
  recordingDir :: string
  segments_st :: "TranscriptSegment list"
  duration_st :: real
  saving :: bool
  hasChanges :: bool
  status :: string
  invoked :: "invocation list"

text \<open>The initial values of the hooks.\<close>

definition initial_editor :: EditorWindow where
  "initial_editor =
     \<lparr>recordingDir = [], segments_st = [], duration_st = 0, saving = False,
      hasChanges = False, status = ''Ready'', invoked = []\<rparr>"

text \<open>
  The listener for the event \<^verbatim>\<open>editor-data\<close>: it stores the directory, the segments
  and the duration of the payload (and its summary, left out here), clears
  \<^verbatim>\<open>hasChanges\<close> and sets the status.
\<close>

record EditorPayload =
  recording_dir :: string
  transcript :: TranscriptionResult

definition on_editor_data :: "EditorPayload \<Rightarrow> EditorWindow \<Rightarrow> EditorWindow" where
  "on_editor_data payload st =
     st\<lparr>recordingDir := recording_dir payload,
        segments_st := segments (transcript payload),
        duration_st := duration (transcript payload),
        hasChanges := False,
        status := ''Loaded''\<rparr>"

subsection \<open>Editing handlers\<close>

text \<open>
  \<^verbatim>\<open>prev.map((seg) => (seg.id === id ? { ...seg, text } : seg))\<close>, then
  \<^verbatim>\<open>setHasChanges(true)\<close>.
\<close>

definition handleTextChange :: "string \<Rightarrow> string \<Rightarrow> EditorWindow \<Rightarrow> EditorWindow" where
  "handleTextChange i t st =
     st\<lparr>segments_st := map (\<lambda>seg. if id_seg seg = i then seg\<lparr>text_seg := t\<rparr> else seg) (segments_st st),
        hasChanges := True\<rparr>"

definition handleSpeakerChange :: "string \<Rightarrow> string \<Rightarrow> EditorWindow \<Rightarrow> EditorWindow" where
  "handleSpeakerChange i sp st =
     st\<lparr>segments_st := map (\<lambda>seg. if id_seg seg = i then seg\<lparr>speaker := sp\<rparr> else seg) (segments_st st),
        hasChanges := True\<rparr>"

text \<open>\<^verbatim>\<open>prev.filter((seg) => seg.id !== id)\<close>, then \<^verbatim>\<open>setHasChanges(true)\<close>.\<close>

definition handleDelete :: "string \<Rightarrow> EditorWindow \<Rightarrow> EditorWindow" where
  "handleDelete i st =
     st\<lparr>segments_st := filter (\<lambda>seg. id_seg seg \<noteq> i) (segments_st st),
        hasChanges := True\<rparr>"

subsection \<open>Building the transcript\<close>

text \<open>
  \<^verbatim>\<open>Array.prototype.join\<close> as ECMAScript runs it: the result starts empty, and for each
  element in turn the separator is appended first unless the element is the first one.
\<close>

fun join_loop :: "string \<Rightarrow> bool \<Rightarrow> string \<Rightarrow> string list \<Rightarrow> string" where
  "join_loop sep first R [] = R"
| "join_loop sep first R (x # xs) = join_loop sep False ((if first then R else R @ sep) @ x) xs"

definition join :: "string list \<Rightarrow> string \<Rightarrow> string" where
  "join xs sep = join_loop sep True [] xs"

text \<open>The template literal \<^verbatim>\<open>`[${s.speaker}] ${s.text}`\<close>.\<close>

definition segment_line :: "TranscriptSegment \<Rightarrow> string" where
  "segment_line s = ''['' @ speaker s @ ''] '' @ text_seg s"

definition newline :: string where
  "newline = [CHR 0x0A]"

definition buildTranscript :: "EditorWindow \<Rightarrow> TranscriptionResult" where
  "buildTranscript st =
     (let fullText = join (map segment_line (segments_st st)) newline
      in \<lparr>segments = segments_st st, full_text = fullText, duration = duration_st st\<rparr>)"

subsection \<open>Saving\<close>

text \<open>
  \<^verbatim>\<open>handleSave\<close>. The outcome of the awaited \<^verbatim>\<open>invoke\<close> is the parameter \<open>reply\<close>:
  \<open>Inr ()\<close> when the promise resolves, \<open>Inl e\<close> when it rejects with \<open>e\<close> (already
  converted to a string, as the template literal does). The \<^verbatim>\<open>finally\<close> block runs on
  both paths.
\<close>

definition handleSave :: "string + unit \<Rightarrow> EditorWindow \<Rightarrow> EditorWindow" where
  "handleSave reply st =
     (if recordingDir st = [] then st
      else
        let st1 = st\<lparr>saving := True, status := ''Saving...''\<rparr>;
            st2 = st1\<lparr>invoked := invoked st1 @
                    [\<lparr>command = ''save_edited_transcript'',
                      arg_recordingDir = recordingDir st,
                      arg_transcript = buildTranscript st\<rparr>]\<rparr>;
            st3 = (case reply of
                     Inr _ \<Rightarrow> st2\<lparr>hasChanges := False, status := ''Saved''\<rparr>
                   | Inl e \<Rightarrow> st2\<lparr>status := ''Save error: '' @ e\<rparr>)
        in st3\<lparr>saving := False\<rparr>)"

subsection \<open>Time formatting\<close>

text \<open>
  A JavaScript \<^verbatim>\<open>number\<close> is a binary64 floating-point number. A finite one is
  modelled by its value, a \<open>real\<close>; an arithmetic operation computes the exact result and
  rounds it to the nearest binary64 number, ties to even. Infinities and NaN are not
  modelled, nor is overflow: the operations below do not reach it on finite arguments.

  The binade of a positive number \<open>x\<close> is the integer \<open>e\<close> with \<open>2\<^sup>e \<le> x < 2\<^sup>e\<^sup>+\<^sup>1\<close>,
  found by halving or doubling.
\<close>

function binade_up :: "real \<Rightarrow> nat" where
  "binade_up x = (if x < 2 then 0 else Suc (binade_up (x / 2)))"
  by pat_completeness auto
termination
proof (relation "measure (\<lambda>x. nat \<lfloor>x\<rfloor>)")
  show "wf (measure (\<lambda>x::real. nat \<lfloor>x\<rfloor>))" by simp
next
  fix x :: real
  assume "\<not> x < 2"
  then have "\<lfloor>x / 2\<rfloor> < \<lfloor>x\<rfloor>" and "0 < \<lfloor>x\<rfloor>" by linarith+
  then show "(x / 2, x) \<in> measure (\<lambda>x. nat \<lfloor>x\<rfloor>)" by simp
qed

function binade_down :: "real \<Rightarrow> nat" where
  "binade_down x = (if x \<le> 0 \<or> 1 \<le> x then 0 else Suc (binade_down (2 * x)))"
  by pat_completeness auto
termination
proof (relation "measure (\<lambda>x. nat \<lceil>1 / x\<rceil>)")
  show "wf (measure (\<lambda>x::real. nat \<lceil>1 / x\<rceil>))" by simp
next
  fix x :: real
  assume "\<not> (x \<le> 0 \<or> 1 \<le> x)"
  then have x: "0 < x" "x < 1" by simp_all
  define y where "y = 1 / x"
  have y: "1 < y" using x by (simp add: y_def)
  have "1 / (2 * x) = y / 2" by (simp add: y_def)
  moreover have "\<lceil>y / 2\<rceil> < \<lceil>y\<rceil>"
  proof -
    have c: "2 \<le> \<lceil>y\<rceil>" using y by linarith
    have "y \<le> of_int \<lceil>y\<rceil>" by (rule le_of_int_ceiling)
    with c have "y / 2 \<le> of_int \<lceil>y\<rceil> - 1" by linarith
    then have "y / 2 \<le> of_int (\<lceil>y\<rceil> - 1)" by simp
    then have "\<lceil>y / 2\<rceil> \<le> \<lceil>y\<rceil> - 1" by (simp only: ceiling_le_iff)
    then show ?thesis by simp
  qed
  moreover have "0 < \<lceil>y\<rceil>" using y by linarith
  ultimately have "nat \<lceil>1 / (2 * x)\<rceil> < nat \<lceil>1 / x\<rceil>"
    by (simp only: y_def [symmetric])
  then show "(2 * x, x) \<in> measure (\<lambda>x. nat \<lceil>1 / x\<rceil>)" by simp
qed

declare binade_up.simps [simp del] binade_down.simps [simp del]

definition binade :: "real \<Rightarrow> int" where
  "binade x = (if 1 \<le> x then int (binade_up x) else - int (binade_down x))"

text \<open>Rounding to the nearest integer, a tie going to the even one.\<close>

definition rne :: "real \<Rightarrow> int" where
  "rne y =
     (let f = \<lfloor>y\<rfloor>; r = y - of_int f
      in if r < 1 / 2 then f else if 1 / 2 < r then f + 1 else if even f then f else f + 1)"

text \<open>
  Rounding to binary64: in the binade \<open>e\<close> (at least \<open>-1022\<close>, below which the numbers are
  subnormal) the binary64 numbers are the multiples of \<open>2\<^sup>e\<^sup>-\<^sup>5\<^sup>2\<close>, as the significand
  has 53 bits. A number is a binary64 number when rounding leaves it as it is.
\<close>

definition round_binary64 :: "real \<Rightarrow> real" where
  "round_binary64 x =
     (if x = 0 then 0
      else let u = power_int 2 (max (binade \<bar>x\<bar>) (- 1022) - 52)
           in sgn x * (u * of_int (rne (\<bar>x\<bar> / u))))"

definition is_binary64 :: "real \<Rightarrow> bool" where
  "is_binary64 x = (round_binary64 x = x)"

text \<open>
  The JavaScript remainder \<^verbatim>\<open>a % b\<close> on finite numbers with \<open>b \<noteq> 0\<close>: the quotient is
  truncated towards zero, so the result has the sign of \<open>a\<close>. The remainder of two
  binary64 numbers is a binary64 number, so this operation does not round.
\<close>

definition js_trunc :: "real \<Rightarrow> int" where
  "js_trunc x = (if 0 \<le> x then \<lfloor>x\<rfloor> else \<lceil>x\<rceil>)"

definition js_rem :: "real \<Rightarrow> real \<Rightarrow> real" where
  "js_rem a b = a - b * of_int (js_trunc (a / b))"

text \<open>
  \<^verbatim>\<open>Number.prototype.toString\<close> on an integral value. Up to \<open>2\<^sup>5\<^sup>3\<close> in magnitude it
  gives the decimal digits, most significant first, after a minus sign for a negative
  value. Beyond \<open>2\<^sup>5\<^sup>3\<close> JavaScript prints the shortest digits that read back as the same
  number, filled with zeros, and exponent notation from \<open>10\<^sup>2\<^sup>1\<close>; the model does not
  compute that rendering: it is the parameter \<open>beyond\<close>.
\<close>

definition digit_char :: "nat \<Rightarrow> char" where
  "digit_char d = ''0123456789'' ! d"

fun decimal :: "nat \<Rightarrow> string" where
  "decimal n = (if n < 10 then [digit_char n] else decimal (n div 10) @ [digit_char (n mod 10)])"

declare decimal.simps [simp del]

definition toString :: "(int \<Rightarrow> string) \<Rightarrow> int \<Rightarrow> string" where
  "toString beyond i =
     (if 2 ^ 53 < \<bar>i\<bar> then beyond i
      else if i < 0 then ''-'' @ decimal (nat (- i))
      else decimal (nat i))"

text \<open>
  \<^verbatim>\<open>String.prototype.padStart(targetLength, padString)\<close>: a string that is long enough,
  or an empty filler, gives the string back; otherwise the filler is repeated and cut to
  the missing length, and put in front.
\<close>

definition padStart :: "string \<Rightarrow> nat \<Rightarrow> string \<Rightarrow> string" where
  "padStart s n fill =
     (if n \<le> length s \<or> fill = [] then s
      else take (n - length s) (concat (replicate (n - length s) fill)) @ s)"

text \<open>
  \<^verbatim>\<open>formatTime\<close>. The division rounds to binary64; \<^verbatim>\<open>Math.floor\<close> and \<^verbatim>\<open>%\<close> are exact.
\<close>

definition formatTime :: "(int \<Rightarrow> string) \<Rightarrow> real \<Rightarrow> string" where
  "formatTime beyond seconds =
     (let mins = \<lfloor>round_binary64 (seconds / 60)\<rfloor>;
          secs = \<lfloor>js_rem seconds 60\<rfloor>
      in toString beyond mins @ '':'' @ padStart (toString beyond secs) 2 ''0'')"

section \<open>Specification-level definitions for the editor\<close>

text \<open>
  The full text as the specification words it: the lines \<open>[speaker] text\<close> of the
  segments in list order, a single newline between consecutive lines, nothing for the
  empty list.
\<close>

fun spec_full_text :: "TranscriptSegment list \<Rightarrow> string" where
  "spec_full_text [] = []"
| "spec_full_text [s] = ''['' @ speaker s @ ''] '' @ text_seg s"
| "spec_full_text (s # t # rest) =
     ''['' @ speaker s @ ''] '' @ text_seg s @ [CHR 0x0A] @ spec_full_text (t # rest)"

text \<open>The largest end time of a non-empty segment list, by a left-to-right scan.\<close>

definition max_end_time :: "TranscriptSegment list \<Rightarrow> real" where
  "max_end_time segs = foldl max (end_time (hd segs)) (map end_time (tl segs))"

text \<open>The ordering invariant of a transcript: start times never decrease.\<close>

definition sorted_by_start :: "TranscriptSegment list \<Rightarrow> bool" where
  "sorted_by_start segs = sorted (map start_time segs)"

text \<open>The two-digit, zero-padded decimal rendering of a number below one hundred.\<close>

definition two_digits :: "nat \<Rightarrow> string" where
  "two_digits n = [digit_char (n div 10), digit_char (n mod 10)]"

text \<open>
  Reading a decimal numeral, most significant digit first: the number it denotes, or
  nothing when it is empty or holds a character that is not a digit.
\<close>

definition digit_value :: "char \<Rightarrow> nat option" where
  "digit_value c =
     map_of [(CHR ''0'', 0), (CHR ''1'', 1), (CHR ''2'', 2), (CHR ''3'', 3), (CHR ''4'', 4),
             (CHR ''5'', 5), (CHR ''6'', 6), (CHR ''7'', 7), (CHR ''8'', 8), (CHR ''9'', 9)] c"

fun read_digits :: "nat \<Rightarrow> string \<Rightarrow> nat option" where
  "read_digits acc [] = Some acc"
| "read_digits acc (c # cs) =
     (case digit_value c of None \<Rightarrow> None | Some d \<Rightarrow> read_digits (10 * acc + d) cs)"

definition numeral_value :: "string \<Rightarrow> nat option" where
  "numeral_value cs = (if cs = [] then None else read_digits 0 cs)"

section \<open>The recorder window's statistics polling (App.tsx, RecorderUI)\<close>

text \<open>The interfaces \<^verbatim>\<open>RecordingStats\<close> and \<^verbatim>\<open>RecordingOutput\<close> of the frontend.\<close>

record RecordingStats =
  duration_secs :: real
  system_samples_written :: nat
  mic_samples_written :: nat

record RecordingOutput =
  directory :: string
  system_file :: string
  mic_file :: string
  mixed_file :: string

text \<open>The milestone thresholds, in seconds, with their labels.\<close>

definition MILESTONES :: "(real \<times> string) list" where
  "MILESTONES = [(30 * 60, ''30 minutes''), (60 * 60, ''1 hour''), (2 * 60 * 60, ''2 hours'')]"

text \<open>
  The hooks of \<^verbatim>\<open>RecorderUI\<close> that the polling callback writes, the lines written with
  \<^verbatim>\<open>console.error\<close>, the bodies of the system notifications sent and the number of
  auto-dismiss timers started.
\<close>

record RecorderUI =
  isRecording :: bool
  elapsedTime :: real
  warning :: "string option"
  milestonesReached :: "real set"
  console_errors :: "string list"
  notifications :: "string list"
  dismiss_timers :: nat

text \<open>
  What the notification plugin does when it is asked: any of its calls throws, or it
  answers \<^verbatim>\<open>isPermissionGranted\<close> and, when asked, \<^verbatim>\<open>requestPermission\<close>.
\<close>

datatype notifier = NotifyThrows string | Notifier bool string

definition send_milestone_notification :: "notifier \<Rightarrow> string \<Rightarrow> RecorderUI \<Rightarrow> RecorderUI" where
  "send_milestone_notification env body st =
     (case env of
        NotifyThrows e \<Rightarrow> st\<lparr>console_errors := console_errors st @ [''Failed to send notification: '' @ e]\<rparr>
      | Notifier granted permission \<Rightarrow>
          (let permitted = (if granted then True else permission = ''granted'')
           in if permitted then st\<lparr>notifications := notifications st @ [body]\<rparr> else st))"

text \<open>
  The loop over \<^verbatim>\<open>MILESTONES\<close>. The test reads the set \<open>reached\<close> that the callback
  closed over; the update of the hook is the functional one.
\<close>

fun check_milestones ::
  "notifier \<Rightarrow> real set \<Rightarrow> RecordingStats \<Rightarrow> (real \<times> string) list \<Rightarrow> RecorderUI \<Rightarrow> RecorderUI" where
  "check_milestones env reached stats [] st = st"
| "check_milestones env reached stats ((secs, label) # ms) st =
     (if secs \<le> duration_secs stats \<and> secs \<notin> reached then
        let msg = ''Recording has been running for '' @ label;
            st1 = st\<lparr>milestonesReached := insert secs (milestonesReached st), warning := Some msg\<rparr>;
            st2 = send_milestone_notification env msg st1;
            st3 = st2\<lparr>dismiss_timers := Suc (dismiss_timers st2)\<rparr>
        in check_milestones env reached stats ms st3
      else check_milestones env reached stats ms st)"

text \<open>
  One run of the interval callback. The outcome of the awaited
  \<^verbatim>\<open>invoke("get_recording_stats")\<close> is the parameter \<open>reply\<close>: \<open>Inl e\<close> when the promise
  rejects, \<open>Inr None\<close> for \<^verbatim>\<open>null\<close>, \<open>Inr (Some stats)\<close> for a snapshot.
\<close>

definition poll_tick :: "notifier \<Rightarrow> string + RecordingStats option \<Rightarrow> RecorderUI \<Rightarrow> RecorderUI" where
  "poll_tick env reply st =
     (case reply of
        Inl e \<Rightarrow> st\<lparr>console_errors := console_errors st @ [''Failed to get recording stats: '' @ e]\<rparr>
      | Inr None \<Rightarrow> st
      | Inr (Some stats) \<Rightarrow>
          check_milestones env (milestonesReached st) stats MILESTONES
            (st\<lparr>elapsedTime := duration_secs stats\<rparr>))"

section \<open>The Capture Controller\<close>

text \<open>
  Modelled from the spec: the Capture Controller of the Rust backend (\<^verbatim>\<open>audio.rs\<close>,
  \<^verbatim>\<open>lib.rs\<close>) is not among the source files; the definitions of this section follow
  sections 3, 4.1, 6 and 7 of the specification.
\<close>

record RecordingSession =
  session_directory :: string
  start_instant :: real
  system_samples :: nat
  mic_samples :: nat

text \<open>
  Modelled from the spec: the lifecycle \<open>Idle \<rightarrow> Recording \<rightarrow> Stopping \<rightarrow> Idle\<close>, or through
  \<open>Failed\<close> on an error; the controller is in exactly one state, and owns its session
  while it has one.
\<close>

datatype controller =
    is_Idle: Idle
  | is_Recording: Recording RecordingSession
  | is_Stopping: Stopping RecordingSession
  | is_Failed: Failed RecordingSession

text \<open>
  Modelled from the spec: the two variants of a Capture Source, and the errors that the
  commands of the controller surface (state errors, device errors, I/O errors).
\<close>

datatype capture_source = Loopback | InputDevice

datatype capture_error =
    AlreadyRecording
  | NotRecording
  | PermissionDenied capture_source
  | DeviceUnavailable capture_source
  | IoError string

text \<open>
  Modelled from the spec: the work that a command of the controller starts, in the order
  it starts it, so that "before any work begins" can be stated.
\<close>

datatype work =
    CreateDirectory string
  | AcquireSource capture_source
  | ReleaseSource capture_source
  | DrainPipelines
  | CloseWriter string

text \<open>
  Modelled from the spec: what the surroundings answer to \<^verbatim>\<open>start_recording\<close>: the
  start instant, the directory name derived from it, whether the directory can be
  created, and whether each device can be acquired (busy or gone, or permission denied).
\<close>

datatype acquisition = Acquired | Denied | Unavailable

record start_env =
  now :: real
  dir_name :: string
  mkdir_ok :: bool
  loopback :: acquisition
  input_device :: acquisition

text \<open>
  Modelled from the spec: \<^verbatim>\<open>get_recording_stats() -> RecordingStats | absent\<close>, a
  point-in-time snapshot of the live counters while recording, absent otherwise.
\<close>

definition get_recording_stats :: "real \<Rightarrow> controller \<Rightarrow> RecordingStats option" where
  "get_recording_stats t c =
     (case c of
        Recording s \<Rightarrow>
          Some \<lparr>duration_secs = t - start_instant s,
                system_samples_written = system_samples s,
                mic_samples_written = mic_samples s\<rparr>
      | _ \<Rightarrow> None)"

text \<open>
  Modelled from the spec: the error of a failed acquisition, which tells "permission
  denied" from "device unavailable" and names the source.
\<close>

definition acquire_error :: "capture_source \<Rightarrow> acquisition \<Rightarrow> capture_error option" where
  "acquire_error src a =
     (case a of Acquired \<Rightarrow> None
              | Denied \<Rightarrow> Some (PermissionDenied src)
              | Unavailable \<Rightarrow> Some (DeviceUnavailable src))"

text \<open>
  Modelled from the spec: \<^verbatim>\<open>start_recording\<close>. It is rejected with "already recording"
  unless the controller is idle; otherwise it creates the session directory and acquires
  both sources, and a source that cannot be acquired aborts the session and rolls back to
  \<open>Idle\<close> with the specific error.
\<close>

definition start_recording :: "start_env \<Rightarrow> controller \<Rightarrow> (capture_error + unit) \<times> controller \<times> work list" where
  "start_recording env c =
     (if \<not> is_Idle c then (Inl AlreadyRecording, c, [])
      else if \<not> mkdir_ok env then (Inl (IoError (dir_name env)), Idle, [CreateDirectory (dir_name env)])
      else
        (case acquire_error Loopback (loopback env) of
           Some e \<Rightarrow> (Inl e, Idle, [CreateDirectory (dir_name env), AcquireSource Loopback])
         | None \<Rightarrow>
            (case acquire_error InputDevice (input_device env) of
               Some e \<Rightarrow>
                 (Inl e, Idle,
                  [CreateDirectory (dir_name env), AcquireSource Loopback,
                   AcquireSource InputDevice, ReleaseSource Loopback])
             | None \<Rightarrow>
                 (Inr (),
                  Recording \<lparr>session_directory = dir_name env, start_instant = now env,
                             system_samples = 0, mic_samples = 0\<rparr>,
                  [CreateDirectory (dir_name env), AcquireSource Loopback,
                   AcquireSource InputDevice]))))"

text \<open>
  Modelled from the spec: the path of a file of the session directory,
  \<^verbatim>\<open><session-directory>/<name>.<ext>\<close>, with the extension \<^verbatim>\<open>wav\<close> that the
  repository's notes give.
\<close>

definition session_file :: "string \<Rightarrow> string \<Rightarrow> string" where
  "session_file dir name = dir @ ''/'' @ name @ ''.wav''"

text \<open>
  Modelled from the spec: \<^verbatim>\<open>stop_recording\<close>. It is rejected unless the controller is
  recording; otherwise the pipelines drain, every writer is closed, and the controller
  returns to \<open>Idle\<close> with the three files of the session directory, or with the I/O
  error of the file named by \<open>write_failure\<close>.
\<close>

definition stop_recording :: "string option \<Rightarrow> controller \<Rightarrow> (capture_error + RecordingOutput) \<times> controller \<times> work list" where
  "stop_recording write_failure c =
     (case c of
        Recording s \<Rightarrow>
          (let d = session_directory s;
               closing = [DrainPipelines, CloseWriter (session_file d ''system''),
                       CloseWriter (session_file d ''mic''), CloseWriter (session_file d ''mixed'')]
           in case write_failure of
                Some f \<Rightarrow> (Inl (IoError f), Idle, closing)
              | None \<Rightarrow>
                  (Inr \<lparr>directory = d, system_file = session_file d ''system'',
                        mic_file = session_file d ''mic'', mixed_file = session_file d ''mixed''\<rparr>,
                   Idle, closing))
      | _ \<Rightarrow> (Inl NotRecording, c, []))"

section \<open>The Segment Merge Engine\<close>

text \<open>
  Modelled from the spec: the Segment Merge Engine of the Rust backend
  (\<^verbatim>\<open>transcribe.rs\<close>) is not among the source files; the definitions of this section
  follow section 4.6 of the specification. The merge is the two-way merge of two
  pre-sorted sequences; on equal start times the segment of the first list goes first.
\<close>

fun merge_segments :: "TranscriptSegment list \<Rightarrow> TranscriptSegment list \<Rightarrow> TranscriptSegment list" where
  "merge_segments [] right = right"
| "merge_segments (l # left) [] = l # left"
| "merge_segments (l # left) (r # right) =
     (if start_time l \<le> start_time r
      then l # merge_segments left (r # right)
      else r # merge_segments (l # left) right)"

text \<open>
  Modelled from the spec: the total duration is the largest end time of the segments, or
  the longer of the two source recordings when there is no segment.
\<close>

definition total_duration :: "TranscriptSegment list \<Rightarrow> real \<Rightarrow> real \<Rightarrow> real" where
  "total_duration segs system_secs mic_secs =
     (if segs = [] then max system_secs mic_secs else max_end_time segs)"

text \<open>
  Modelled from the spec: the merged transcript of two segment lists and the lengths of
  their two recordings, with the derived full text and total duration.
\<close>

definition merge_transcripts ::
  "TranscriptSegment list \<Rightarrow> real \<Rightarrow> TranscriptSegment list \<Rightarrow> real \<Rightarrow> TranscriptionResult" where
  "merge_transcripts system_segs system_secs mic_segs mic_secs =
     (let merged = merge_segments system_segs mic_segs
      in \<lparr>segments = merged,
          full_text = spec_full_text merged,
          duration = total_duration merged system_secs mic_secs\<rparr>)"

text \<open>
  Modelled from the spec: a homogeneously labelled input, all of whose segments carry one
  speaker label.
\<close>

definition homogeneous :: "string \<Rightarrow> TranscriptSegment list \<Rightarrow> bool" where
  "homogeneous sp segs = list_all (\<lambda>s. speaker s = sp) segs"

section \<open>Persistence of an edited transcript\<close>

type_synonym transcript_store = "string \<rightharpoonup> TranscriptionResult"

text \<open>
  Modelled from the spec: the command \<^verbatim>\<open>save_edited_transcript(directory, transcript)\<close>
  of the Rust backend, which is not among the source files. Following section 6 of the
  specification it persists the edited transcript of the directory, and it re-derives the
  full text and the duration from the segments instead of trusting the derived fields
  that the caller supplies. The duration is the one of section 4.6, for which the lengths
  of the two recordings of the directory are parameters. A directory that cannot be
  written is an I/O error, and nothing is stored.
\<close>

definition save_edited_transcript ::
  "real \<Rightarrow> real \<Rightarrow> bool \<Rightarrow> string \<Rightarrow> TranscriptionResult \<Rightarrow> transcript_store
     \<Rightarrow> capture_error + transcript_store" where
  "save_edited_transcript system_secs mic_secs writable dir t store =
     (if \<not> writable then Inl (IoError dir)
      else Inr (store(dir \<mapsto>
             \<lparr>segments = segments t,
              full_text = spec_full_text (segments t),
              duration = total_duration (segments t) system_secs mic_secs\<rparr>)))"

section \<open>Example data\<close>

text \<open>
  A stand-in for the rendering of integers beyond \<open>2\<^sup>5\<^sup>3\<close>, for the examples that do not
  reach it.
\<close>

definition unrendered :: "int \<Rightarrow> string" where
  "unrendered i = []"

definition seg_a :: TranscriptSegment where
  "seg_a = \<lparr>id_seg = ''a'', text_seg = ''hi'', start_time = 0, end_time = 5, speaker = ''Meeting''\<rparr>"

definition seg_b :: TranscriptSegment where
  "seg_b = \<lparr>id_seg = ''b'', text_seg = ''hey'', start_time = 2, end_time = 4, speaker = ''Me''\<rparr>"

definition seg_c :: TranscriptSegment where
  "seg_c = \<lparr>id_seg = ''c'', text_seg = ''there'', start_time = 5, end_time = 10, speaker = ''Meeting''\<rparr>"

definition seg_d :: TranscriptSegment where
  "seg_d = \<lparr>id_seg = ''d'', text_seg = ''yes'', start_time = 5, end_time = 6, speaker = ''Me''\<rparr>"

text \<open>
  The editor after it has received a transcript of three segments whose duration, 10, is
  the largest end time.
\<close>

definition loaded_editor :: EditorWindow where
  "loaded_editor =
     on_editor_data
       \<lparr>recording_dir = ''rec'',
        transcript = \<lparr>segments = [seg_a, seg_b, seg_c],
                      full_text = spec_full_text [seg_a, seg_b, seg_c],
                      duration = 10\<rparr>\<rparr>
       initial_editor"

definition polling_ui :: RecorderUI where
  "polling_ui =
     \<lparr>isRecording = True, elapsedTime = 0, warning = None, milestonesReached = {},
      console_errors = [], notifications = [], dismiss_timers = 0\<rparr>"

definition a_session :: RecordingSession where
  "a_session = \<lparr>session_directory = ''2026-01-15_10-30-00'', start_instant = 100,
                system_samples = 96000, mic_samples = 48000\<rparr>"

definition a_start :: start_env where
  "a_start = \<lparr>now = 200, dir_name = ''2026-01-15_10-35-00'', mkdir_ok = True,
              loopback = Acquired, input_device = Acquired\<rparr>"

section \<open>Helper lemmas\<close>

lemma join_loop_acc: "join_loop sep False R xs = R @ concat (map (\<lambda>x. sep @ x) xs)"
  by (induction xs arbitrary: R) simp_all

lemma join_lines: "join (map segment_line segs) newline = spec_full_text segs"
proof (induction segs rule: spec_full_text.induct)
  case 1
  show ?case by (simp add: join_def)
next
  case (2 s)
  show ?case by (simp add: join_def segment_line_def)
next
  case (3 s t rest)
  have "join (map segment_line (t # rest)) newline
        = segment_line t @ concat (map (\<lambda>x. newline @ x) (map segment_line rest))"
    by (simp add: join_def join_loop_acc)
  with 3 show ?case
    by (simp add: join_def join_loop_acc segment_line_def newline_def)
qed

lemma start_time_after_text:
  "start_time \<circ> (\<lambda>seg. if id_seg seg = i then seg\<lparr>text_seg := t\<rparr> else seg) = start_time"
  by (rule ext) simp

lemma start_time_after_speaker:
  "start_time \<circ> (\<lambda>seg. if id_seg seg = i then seg\<lparr>speaker := sp\<rparr> else seg) = start_time"
  by (rule ext) simp

lemma loaded_segments: "segments_st loaded_editor = [seg_a, seg_b, seg_c]"
  by (simp add: loaded_editor_def on_editor_data_def)

lemma loaded_directory: "recordingDir loaded_editor = ''rec''"
  by (simp add: loaded_editor_def on_editor_data_def)

lemma loaded_duration: "duration_st loaded_editor = 10"
  by (simp add: loaded_editor_def on_editor_data_def)

lemma floor_rem_60:
  assumes "0 \<le> s"
  shows "\<lfloor>js_rem s 60\<rfloor> = \<lfloor>s\<rfloor> mod 60"
proof -
  have q: "\<lfloor>s / 60\<rfloor> = \<lfloor>s\<rfloor> div 60"
    using floor_divide_real_eq_div [of 60 s] by simp
  have "js_rem s 60 = s - of_int (60 * (\<lfloor>s\<rfloor> div 60))"
    using assms by (simp add: js_rem_def js_trunc_def q)
  then have "\<lfloor>js_rem s 60\<rfloor> = \<lfloor>s\<rfloor> - 60 * (\<lfloor>s\<rfloor> div 60)"
    by (simp only: floor_diff_of_int)
  then show ?thesis by (simp add: minus_mult_div_eq_mod)
qed

lemma decimal_lt10: "n < 10 \<Longrightarrow> decimal n = [digit_char n]"
  by (simp add: decimal.simps)

lemma decimal_ge10: "10 \<le> n \<Longrightarrow> decimal n = decimal (n div 10) @ [digit_char (n mod 10)]"
  by (subst decimal.simps) simp

lemma pad_two: "n < 60 \<Longrightarrow> padStart (decimal n) 2 ''0'' = two_digits n"
proof (cases "n < 10")
  case True
  then show ?thesis
    by (simp add: decimal_lt10 padStart_def two_digits_def digit_char_def)
next
  case False
  assume "n < 60"
  with False have "n div 10 < 10" by simp
  with False show ?thesis
    by (simp add: decimal_ge10 decimal_lt10 padStart_def two_digits_def)
qed


text \<open>With a directory, the call is made, with the transcript that \<^verbatim>\<open>buildTranscript\<close> builds.\<close>

lemma save_with_directory:
  "recordingDir st \<noteq> [] \<Longrightarrow>
   invoked (handleSave reply st) = invoked st @
     [\<lparr>command = ''save_edited_transcript'', arg_recordingDir = recordingDir st,
       arg_transcript = buildTranscript st\<rparr>]"
  by (cases reply) (simp_all add: handleSave_def Let_def)

lemma max_end_time_Max: "segs \<noteq> [] \<Longrightarrow> max_end_time segs = Max (end_time ` set segs)"
proof -
  have gen: "foldl max a xs = Max (insert a (set xs))" for a :: real and xs
  proof (induction xs arbitrary: a)
    case Nil
    show ?case by simp
  next
    case (Cons x xs)
    have "Max (insert (max a x) (set xs)) = Max (insert a (insert x (set xs)))"
      by (cases "set xs = {}") (simp_all add: max.assoc)
    with Cons show ?case by simp
  qed
  assume "segs \<noteq> []"
  then obtain s rest where "segs = s # rest" by (cases segs) auto
  then show ?thesis by (simp add: max_end_time_def gen)
qed

subsection \<open>Binary64 rounding and decimal numerals\<close>

lemma binade_up_bounds: "1 \<le> x \<Longrightarrow> 2 ^ binade_up x \<le> x \<and> x < 2 ^ Suc (binade_up x)"
proof (induction x rule: binade_up.induct)
  case (1 x)
  show ?case
  proof (cases "x < 2")
    case True
    with 1(2) show ?thesis by (simp add: binade_up.simps [of x])
  next
    case False
    then have "1 \<le> x / 2" by simp
    with 1(1) False have "2 ^ binade_up (x / 2) \<le> x / 2 \<and> x / 2 < 2 ^ Suc (binade_up (x / 2))"
      by simp
    with False show ?thesis by (simp add: binade_up.simps [of x])
  qed
qed

lemma binade_down_bounds:
  "0 < x \<Longrightarrow> x < 1 \<Longrightarrow> 1 \<le> x * 2 ^ binade_down x \<and> x * 2 ^ binade_down x < 2"
proof (induction x rule: binade_down.induct)
  case (1 x)
  show ?case
  proof (cases "2 * x < 1")
    case True
    with 1 have "1 \<le> 2 * x * 2 ^ binade_down (2 * x) \<and> 2 * x * 2 ^ binade_down (2 * x) < 2"
      by simp
    with 1(2,3) show ?thesis by (simp add: binade_down.simps [of x] mult_ac)
  next
    case False
    then have "binade_down (2 * x) = 0" by (simp add: binade_down.simps [of "2 * x"])
    with False 1(2,3) show ?thesis by (simp add: binade_down.simps [of x])
  qed
qed

lemma binade_bounds:
  assumes "0 < x"
  shows "power_int 2 (binade x) \<le> x \<and> x < power_int 2 (binade x + 1)"
proof (cases "1 \<le> x")
  case True
  with binade_up_bounds [OF True] show ?thesis
    by (simp add: binade_def power_int_add)
next
  case False
  with assms have x: "0 < x" "x < 1" by simp_all
  have pos: "binade_down x > 0"
    using x by (simp add: binade_down.simps [of x])
  note b = binade_down_bounds [OF x]
  have be: "binade x = - int (binade_down x)"
    using False by (simp add: binade_def)
  have p1: "power_int (2::real) (- int (binade_down x)) = 1 / 2 ^ binade_down x"
    by (simp add: power_int_minus field_simps)
  have p2: "power_int (2::real) (- int (binade_down x) + 1) = 2 / 2 ^ binade_down x"
    by (subst power_int_add) (simp_all add: power_int_minus field_simps)
  have "1 / 2 ^ binade_down x \<le> x \<and> x < 2 / 2 ^ binade_down x"
    using b by (simp add: field_simps)
  then show ?thesis by (simp only: be p1 p2)
qed

lemma binade_less: "0 < x \<Longrightarrow> x < power_int 2 m \<Longrightarrow> binade x < m"
proof (rule ccontr)
  assume x: "0 < x" "x < power_int 2 m" and "\<not> binade x < m"
  then have "m \<le> binade x" by simp
  then have "power_int (2::real) m \<le> power_int 2 (binade x)"
    by (intro power_int_increasing) simp_all
  with binade_bounds [OF x(1)] x(2) show False by simp
qed

lemma binade_ge: "0 < x \<Longrightarrow> power_int 2 m \<le> x \<Longrightarrow> m \<le> binade x"
proof (rule ccontr)
  assume x: "0 < x" "power_int 2 m \<le> x" and "\<not> m \<le> binade x"
  then have "binade x + 1 \<le> m" by simp
  then have "power_int (2::real) (binade x + 1) \<le> power_int 2 m"
    by (intro power_int_increasing) simp_all
  with binade_bounds [OF x(1)] x(2) show False by simp
qed

lemma binade_eq: "power_int 2 m \<le> x \<Longrightarrow> x < power_int 2 (m + 1) \<Longrightarrow> binade x = m"
proof -
  assume a: "power_int 2 m \<le> x" "x < power_int 2 (m + 1)"
  have "0 < power_int (2::real) m" by simp
  with a have x: "0 < x" by linarith
  from binade_ge [OF x a(1)] binade_less [OF x a(2)] show ?thesis by simp
qed

lemma rne_ge: "of_int M \<le> y \<Longrightarrow> M \<le> rne y"
proof -
  assume "of_int M \<le> y"
  then have "M \<le> \<lfloor>y\<rfloor>" by (simp add: le_floor_iff)
  then show ?thesis by (simp add: rne_def Let_def)
qed

lemma rne_less: "y < of_int M - 1 / 2 \<Longrightarrow> rne y < M"
proof -
  assume a: "y < of_int M - 1 / 2"
  then have f: "\<lfloor>y\<rfloor> \<le> M - 1" by linarith
  show ?thesis
  proof (cases "\<lfloor>y\<rfloor> = M - 1")
    case True
    then have "y - of_int \<lfloor>y\<rfloor> < 1 / 2" using a by simp
    with True show ?thesis by (simp add: rne_def Let_def)
  next
    case False
    with f have "\<lfloor>y\<rfloor> + 1 < M" by simp
    then show ?thesis by (simp add: rne_def Let_def)
  qed
qed

lemma rne_of_int: "rne (of_int n) = n"
  by (simp add: rne_def)

lemma inv_pow2: "e \<le> 52 \<Longrightarrow> power_int (2::real) (e - 52) = 1 / 2 ^ nat (52 - e)"
proof -
  assume "e \<le> 52"
  then have "e - 52 = - int (nat (52 - e))" by simp
  then have "power_int (2::real) (e - 52) = power_int 2 (- int (nat (52 - e)))" by simp
  also have "\<dots> = 1 / 2 ^ nat (52 - e)"
    by (simp only: power_int_minus power_int_of_nat) (simp add: field_simps)
  finally show ?thesis .
qed

text \<open>The rounded value of a positive number with binade at most 52, over the grid of its binade.\<close>

lemma round_pos:
  assumes "0 < x"
  defines "e \<equiv> max (binade x) (- 1022)"
  assumes "e \<le> 52"
  shows "round_binary64 x = of_int (rne (x * 2 ^ nat (52 - e))) / 2 ^ nat (52 - e)"
proof -
  have "round_binary64 x = power_int 2 (e - 52) * of_int (rne (x / power_int 2 (e - 52)))"
    using assms(1) by (simp add: round_binary64_def Let_def e_def)
  then show ?thesis by (simp add: inv_pow2 [OF assms(3)])
qed

lemma floor_round_div_60:
  assumes d: "is_binary64 s" and s0: "0 \<le> s" and s53: "s < 2 ^ 53"
  shows "\<lfloor>round_binary64 (s / 60)\<rfloor> = \<lfloor>s / 60\<rfloor>"
proof (cases "s = 0")
  case True
  then show ?thesis by (simp add: round_binary64_def)
next
  case False
  with s0 have spos: "0 < s" by simp
  define q where "q = s / 60"
  define k where "k = \<lfloor>q\<rfloor> + 1"
  define e where "e = max (binade q) (- 1022)"
  define W :: int where "W = 2 ^ nat (52 - e)"
  have qpos: "0 < q" using spos by (simp add: q_def)
  have kq: "of_int (k - 1) \<le> q" "q < of_int k" by (simp_all add: k_def)
  have k1: "1 \<le> k" using qpos by (simp add: k_def)
  have "q < power_int 2 48"
    using s53 by (simp add: q_def)
  from binade_less [OF qpos this] have e47: "e \<le> 47" by (simp add: e_def)
  then have e52: "e \<le> 52" by simp
  have W32: "32 \<le> W"
  proof -
    have "5 \<le> nat (52 - e)" using e47 by simp
    then have "(2::int) ^ 5 \<le> 2 ^ nat (52 - e)" by (intro power_increasing) simp_all
    then show ?thesis by (simp add: W_def)
  qed
  have fl: "round_binary64 q = of_int (rne (q * of_int W)) / of_int W"
    using round_pos [OF qpos] e52 by (simp add: e_def W_def)
  have Wpos: "0 < (of_int W :: real)" using W32 by simp
  \<comment> \<open>lower bound\<close>
  have "of_int ((k - 1) * W) \<le> q * of_int W"
    using kq(1) Wpos by (simp add: mult_right_mono)
  then have lo: "(k - 1) * W \<le> rne (q * of_int W)" by (rule rne_ge)
  \<comment> \<open>upper bound\<close>
  have gap: "30 < (60 * of_int k - s) * of_int W"
  proof (cases "s < 16")
    case True
    have "44 \<le> 60 * (of_int k :: real) - s"
    proof -
      have "(1::real) \<le> of_int k" using k1 by simp
      with True show ?thesis by linarith
    qed
    moreover have "(32::real) \<le> of_int W" using W32 by simp
    ultimately have "44 * 32 \<le> (60 * of_int k - s) * (of_int W :: real)"
      by (intro mult_mono) simp_all
    then show ?thesis by simp
  next
    case False
    then have s16: "power_int 2 4 \<le> s" by simp
    define bs where "bs = binade s"
    have bs4: "4 \<le> bs" using binade_ge [OF spos s16] by (simp add: bs_def)
    have "s < power_int 2 53" using s53 by simp
    from binade_less [OF spos this] have bs52: "bs \<le> 52" by (simp add: bs_def)
    define Ws :: int where "Ws = 2 ^ nat (52 - bs)"
    define Ns where "Ns = rne (s * of_int Ws)"
    have "max bs (- 1022) = bs" using bs4 by simp
    with round_pos [OF spos] bs52 have "round_binary64 s = of_int Ns / of_int Ws"
      by (simp add: bs_def Ws_def Ns_def)
    with d have sN: "s = of_int Ns / of_int Ws" by (simp add: is_binary64_def)
    have Wspos: "0 < (of_int Ws :: real)" by (simp add: Ws_def)
    \<comment> \<open>the binade of the quotient is at least five below that of \<open>s\<close>\<close>
    have "s < power_int 2 (bs + 1)" using binade_bounds [OF spos] by (simp add: bs_def)
    moreover have "q < s / 32" using spos by (simp add: q_def)
    ultimately have "q < power_int 2 (bs + 1) / 32" by linarith
    also have "power_int (2::real) (bs + 1) / 32 = power_int 2 (bs - 4)"
    proof -
      have "bs + 1 = (bs - 4) + 5" by simp
      then have "power_int (2::real) (bs + 1) = power_int 2 ((bs - 4) + 5)" by (rule arg_cong)
      also have "\<dots> = power_int 2 (bs - 4) * power_int 2 5"
        by (rule power_int_add) simp
      finally show ?thesis by simp
    qed
    finally have "binade q < bs - 4" using binade_less [OF qpos] by simp
    with bs4 have ebs: "e + 5 \<le> bs" by (simp add: e_def)
    define D :: int where "D = 2 ^ nat (bs - e)"
    have WD: "W = Ws * D"
    proof -
      have "nat (52 - e) = nat (52 - bs) + nat (bs - e)" using ebs bs52 by simp
      then show ?thesis by (simp add: W_def Ws_def D_def power_add)
    qed
    have D32: "32 \<le> D"
    proof -
      have "5 \<le> nat (bs - e)" using ebs by simp
      then have "(2::int) ^ 5 \<le> 2 ^ nat (bs - e)" by (intro power_increasing) simp_all
      then show ?thesis by (simp add: D_def)
    qed
    have "(60 * of_int k - s) * of_int W = of_int ((60 * k * Ws - Ns) * D)"
      using Wspos by (simp add: WD sN field_simps)
    moreover have "1 \<le> 60 * k * Ws - Ns"
    proof -
      have "s < 60 * of_int k" using kq(2) by (simp add: q_def)
      then have "of_int Ns / of_int Ws < 60 * (of_int k :: real)" by (simp only: sN [symmetric])
      then have "of_int Ns < 60 * of_int k * (of_int Ws :: real)"
        using Wspos by (simp add: field_simps)
      then have "of_int Ns < (of_int (60 * k * Ws) :: real)" by simp
      then have "Ns < 60 * k * Ws" by (simp only: of_int_less_iff)
      then show ?thesis by simp
    qed
    moreover have "0 < D" using D32 by simp
    ultimately have "of_int D \<le> (60 * of_int k - s) * (of_int W :: real)"
      by (simp only: of_int_le_iff) (simp add: mult_le_cancel_right1)
    with D32 show ?thesis by linarith
  qed
  have "q * of_int W < of_int (k * W) - 1 / 2"
  proof -
    define B :: real where "B = of_int (k * W)"
    define C where "C = q * of_int W"
    have "(60 * of_int k - s) * of_int W = 60 * (B - C)"
      by (simp add: q_def B_def C_def field_simps)
    with gap have "30 < 60 * (B - C)" by simp
    then have "C < B - 1 / 2" by (simp add: algebra_simps)
    then show ?thesis by (simp only: B_def C_def)
  qed
  then have hi: "rne (q * of_int W) < k * W" by (rule rne_less)
  \<comment> \<open>conclusion\<close>
  have "of_int (k - 1) \<le> round_binary64 q"
  proof -
    have "of_int ((k - 1) * W) \<le> (of_int (rne (q * of_int W)) :: real)"
      using lo by (simp only: of_int_le_iff)
    then show ?thesis using Wpos by (simp add: fl field_simps)
  qed
  moreover have "round_binary64 q < of_int (k - 1) + 1"
  proof -
    have "(of_int (rne (q * of_int W)) :: real) < of_int (k * W)"
      using hi by (simp only: of_int_less_iff)
    then show ?thesis using Wpos by (simp add: fl field_simps)
  qed
  ultimately have "\<lfloor>round_binary64 q\<rfloor> = k - 1" by (simp only: floor_unique)
  then show ?thesis by (simp add: q_def k_def)
qed

lemma is_binary64_I:
  assumes "power_int 2 m \<le> x" "x < power_int 2 (m + 1)" "- 1022 \<le> m"
    and "x / power_int 2 (m - 52) = of_int n"
  shows "is_binary64 x"
proof -
  have "0 < power_int (2::real) m" by simp
  with assms(1) have x: "0 < x" by linarith
  have b: "binade x = m" using assms(1,2) by (rule binade_eq)
  have u: "0 < power_int (2::real) (m - 52)" by simp
  have "round_binary64 x = power_int 2 (m - 52) * of_int (rne (x / power_int 2 (m - 52)))"
    using x assms(3) by (simp add: round_binary64_def Let_def b max_def)
  also have "\<dots> = power_int 2 (m - 52) * (x / power_int 2 (m - 52))"
    by (simp only: assms(4) rne_of_int)
  also have "\<dots> = x" using u by simp
  finally show ?thesis by (simp add: is_binary64_def)
qed

lemma digit_cases:
  "d < 10 \<Longrightarrow> d = 0 \<or> d = 1 \<or> d = 2 \<or> d = 3 \<or> d = 4 \<or> d = 5 \<or> d = 6 \<or> d = 7 \<or> d = 8 \<or> d = (9::nat)"
  by arith

lemma digit_char_all:
  "digit_char 0 = CHR ''0''" "digit_char 1 = CHR ''1''" "digit_char 2 = CHR ''2''"
  "digit_char 3 = CHR ''3''" "digit_char 4 = CHR ''4''" "digit_char 5 = CHR ''5''"
  "digit_char 6 = CHR ''6''" "digit_char 7 = CHR ''7''" "digit_char 8 = CHR ''8''"
  "digit_char 9 = CHR ''9''" "digit_char (Suc 0) = CHR ''1''"
  by (simp_all add: digit_char_def)

lemma digit_value_digit_char: "d < 10 \<Longrightarrow> digit_value (digit_char d) = Some d"
  using digit_cases [of d] by (auto simp: digit_char_all digit_value_def)

lemma digit_char_zero_iff: "d < 10 \<Longrightarrow> digit_char d = CHR ''0'' \<longleftrightarrow> d = 0"
  using digit_cases [of d] by (auto simp: digit_char_all)

lemma read_digits_snoc:
  "read_digits acc (cs @ [c]) =
     (case read_digits acc cs of
        None \<Rightarrow> None
      | Some v \<Rightarrow> (case digit_value c of None \<Rightarrow> None | Some d \<Rightarrow> Some (10 * v + d)))"
  by (induction cs arbitrary: acc) (simp_all split: option.splits)

lemma decimal_nonempty: "decimal n \<noteq> []"
  by (subst decimal.simps) simp

lemma read_decimal: "read_digits 0 (decimal n) = Some n"
proof (induction n rule: decimal.induct)
  case (1 n)
  show ?case
  proof (cases "n < 10")
    case True
    then show ?thesis by (simp add: decimal_lt10 digit_value_digit_char)
  next
    case False
    with 1 have "read_digits 0 (decimal (n div 10)) = Some (n div 10)" by simp
    with False show ?thesis
      by (simp add: decimal_ge10 read_digits_snoc digit_value_digit_char)
  qed
qed

lemma numeral_value_decimal: "numeral_value (decimal n) = Some n"
  by (simp add: numeral_value_def decimal_nonempty read_decimal)

lemma decimal_no_leading_zero: "n \<noteq> 0 \<Longrightarrow> hd (decimal n) \<noteq> CHR ''0''"
proof (induction n rule: decimal.induct)
  case (1 n)
  show ?case
  proof (cases "n < 10")
    case True
    with 1(2) show ?thesis by (simp add: decimal_lt10 digit_char_zero_iff)
  next
    case False
    then have "n div 10 \<noteq> 0" by simp
    with 1(1) False have "hd (decimal (n div 10)) \<noteq> CHR ''0''" by simp
    with False show ?thesis by (simp add: decimal_ge10 decimal_nonempty)
  qed
qed

lemma numeral_value_two_digits: "n < 100 \<Longrightarrow> numeral_value (two_digits n) = Some n"
proof -
  assume "n < 100"
  then have "n div 10 < 10" by simp
  then show ?thesis
    by (simp add: numeral_value_def two_digits_def digit_value_digit_char)
qed

lemma format_exact:
  assumes "is_binary64 s" "0 \<le> s" "s < 2 ^ 53"
  shows "formatTime beyond s = decimal (nat \<lfloor>s / 60\<rfloor>) @ '':'' @ two_digits (nat (\<lfloor>s\<rfloor> mod 60))"
proof -
  have q: "\<lfloor>round_binary64 (s / 60)\<rfloor> = \<lfloor>s / 60\<rfloor>"
    using assms by (rule floor_round_div_60)
  have m0: "0 \<le> \<lfloor>s / 60\<rfloor>" using assms(2) by simp
  have "s / 60 < 2 ^ 53" using assms(2,3) by simp
  then have "\<lfloor>s / 60\<rfloor> < 2 ^ 53" by (simp add: floor_less_iff)
  with m0 have m: "\<not> 2 ^ 53 < \<bar>\<lfloor>s / 60\<rfloor>\<bar>" "\<not> \<lfloor>s / 60\<rfloor> < 0" by simp_all
  have r0: "0 \<le> \<lfloor>s\<rfloor> mod 60" and r60: "\<lfloor>s\<rfloor> mod 60 < 60" by simp_all
  then have r: "\<not> 2 ^ 53 < \<bar>\<lfloor>s\<rfloor> mod 60\<bar>" "\<not> \<lfloor>s\<rfloor> mod 60 < 0" by simp_all
  have "nat (\<lfloor>s\<rfloor> mod 60) < 60" using r60 by simp
  then have p: "padStart (decimal (nat (\<lfloor>s\<rfloor> mod 60))) 2 ''0'' = two_digits (nat (\<lfloor>s\<rfloor> mod 60))"
    by (rule pad_two)
  show ?thesis
    by (simp only: formatTime_def Let_def q floor_rem_60 [OF assms(2)] toString_def m r if_False p)
qed

lemma binary64_3600: "is_binary64 3600"
  by (rule is_binary64_I [of 11 _ "3600 * 2 ^ 41"]) simp_all

lemma binary64_65_5: "is_binary64 (131 / 2)"
  by (rule is_binary64_I [of 6 _ "131 * 2 ^ 45"]) simp_all

lemma binary64_4e17: "is_binary64 400000000000000000"
  by (rule is_binary64_I [of 58 _ "6250000000000000"]) simp_all

lemma round_4e17: "round_binary64 (20000000000000000 / 3) = 6666666666666667"
proof -
  have b: "binade (20000000000000000 / 3) = 52"
    by (rule binade_eq) simp_all
  have f: "\<lfloor>20000000000000000 / (3::real)\<rfloor> = 6666666666666666" by simp
  show ?thesis by (simp add: round_binary64_def Let_def b rne_def f)
qed

lemma decimal_minutes:
  "decimal 6666666666666667 = ''6666666666666667''"
  "decimal 6666666666666666 = ''6666666666666666''"
  by (simp_all add: decimal_ge10 decimal_lt10 digit_char_all)

lemma editor_hands_over_state_duration:
  "recordingDir st \<noteq> [] \<Longrightarrow>
   arg_transcript (last (invoked (handleSave reply st))) =
     \<lparr>segments = segments_st st, full_text = spec_full_text (segments_st st),
      duration = duration_st st\<rparr>
   \<and> arg_recordingDir (last (invoked (handleSave reply st))) = recordingDir st
   \<and> command (last (invoked (handleSave reply st))) = ''save_edited_transcript''"
  by (simp add: save_with_directory buildTranscript_def Let_def join_lines)

section \<open>The derived full text\<close>

text \<open>
  Claim C3: for every list of segments, the full text that \<^verbatim>\<open>buildTranscript\<close> derives
  is the concatenation, in list order, of the lines \<open>[speaker] text\<close> of the segments,
  with a single newline between consecutive lines, and the empty string for the empty
  list. The left side runs \<^verbatim>\<open>map\<close> and \<^verbatim>\<open>join\<close> as the code does; the right side is
  the specification's wording.
\<close>

theorem full_text_is_joined_lines:
  "full_text (buildTranscript st) = spec_full_text (segments_st st)"
  by (simp add: buildTranscript_def Let_def join_lines)

section \<open>Edits and the ordering invariant\<close>

text \<open>
  Claim C5: when the segments are sorted by non-decreasing start time, they still are
  after a text change, after a speaker change and after the deletion of a segment by id.
\<close>

theorem edits_keep_sorted:
  assumes "sorted_by_start (segments_st st)"
  shows "sorted_by_start (segments_st (handleTextChange i t st))
       \<and> sorted_by_start (segments_st (handleSpeakerChange i sp st))
       \<and> sorted_by_start (segments_st (handleDelete i st))"
  using assms
  by (simp add: sorted_by_start_def handleTextChange_def handleSpeakerChange_def handleDelete_def
        start_time_after_text start_time_after_speaker sorted_filter)

theorem edits_keep_sorted_witness:
  "sorted_by_start (segments_st loaded_editor)
   \<and> sorted_by_start (segments_st (handleTextChange ''b'' ''hello'' loaded_editor))
   \<and> sorted_by_start (segments_st (handleSpeakerChange ''b'' ''Meeting'' loaded_editor))
   \<and> sorted_by_start (segments_st (handleDelete ''b'' loaded_editor))"
proof -
  have h: "sorted_by_start (segments_st loaded_editor)"
    by (simp add: sorted_by_start_def loaded_segments seg_a_def seg_b_def seg_c_def)
  from h edits_keep_sorted [OF h, of "''b''" "''hello''" "''Meeting''"] show ?thesis by simp
qed

section \<open>The frame of the text and speaker changes\<close>

text \<open>
  Claim C8: the text change with \<open>(i, t)\<close> keeps the length of the list, and at every
  position it leaves a segment with another id as it is and, in a segment with id \<open>i\<close>,
  replaces the text only: id, start time, end time and speaker stay. The speaker change
  does the same for the speaker field. Positions correspond, so the order is kept.
\<close>

theorem change_touches_one_field:
  assumes "k < length (segments_st st)"
  shows "length (segments_st (handleTextChange i t st)) = length (segments_st st)
       \<and> length (segments_st (handleSpeakerChange i sp st)) = length (segments_st st)
       \<and> segments_st (handleTextChange i t st) ! k =
           (if id_seg (segments_st st ! k) = i
            then \<lparr>id_seg = id_seg (segments_st st ! k), text_seg = t,
                  start_time = start_time (segments_st st ! k),
                  end_time = end_time (segments_st st ! k),
                  speaker = speaker (segments_st st ! k)\<rparr>
            else segments_st st ! k)
       \<and> segments_st (handleSpeakerChange i sp st) ! k =
           (if id_seg (segments_st st ! k) = i
            then \<lparr>id_seg = id_seg (segments_st st ! k), text_seg = text_seg (segments_st st ! k),
                  start_time = start_time (segments_st st ! k),
                  end_time = end_time (segments_st st ! k),
                  speaker = sp\<rparr>
            else segments_st st ! k)"
  using assms by (simp add: handleTextChange_def handleSpeakerChange_def)

theorem change_touches_one_field_witness:
  "(1::nat) < length (segments_st loaded_editor)
   \<and> segments_st (handleTextChange ''b'' ''hello'' loaded_editor) ! 1 = seg_b\<lparr>text_seg := ''hello''\<rparr>
   \<and> segments_st (handleTextChange ''a'' ''hello'' loaded_editor) ! 1 = seg_b
   \<and> segments_st (handleSpeakerChange ''b'' ''Meeting'' loaded_editor) ! 1 = seg_b\<lparr>speaker := ''Meeting''\<rparr>
   \<and> segments_st (handleSpeakerChange ''a'' ''Me'' loaded_editor) ! 1 = seg_b"
proof -
  have h: "(1::nat) < length (segments_st loaded_editor)"
    by (simp add: loaded_segments)
  from h
    change_touches_one_field [OF h, of "''b''" "''hello''" "''Meeting''"]
    change_touches_one_field [OF h, of "''a''" "''hello''" "''Me''"]
  show ?thesis
    by (simp add: loaded_segments seg_b_def)
qed

section \<open>Saving with no directory\<close>

text \<open>
  Claim C9: when the recording directory is the empty string, the save operation returns
  at once: no call of \<^verbatim>\<open>save_edited_transcript\<close> is added to the calls made, and the
  segments, the flag \<^verbatim>\<open>hasChanges\<close> and the status (the whole state) are as before.
\<close>

theorem save_without_directory:
  assumes "recordingDir st = []"
  shows "handleSave reply st = st
       \<and> invoked (handleSave reply st) = invoked st
       \<and> segments_st (handleSave reply st) = segments_st st
       \<and> hasChanges (handleSave reply st) = hasChanges st
       \<and> status (handleSave reply st) = status st"
  using assms by (simp add: handleSave_def)

theorem save_without_directory_witness:
  "recordingDir (handleTextChange ''a'' ''x'' initial_editor) = []
   \<and> handleSave (Inr ()) (handleTextChange ''a'' ''x'' initial_editor)
       = handleTextChange ''a'' ''x'' initial_editor
   \<and> invoked (handleSave (Inr ()) (handleTextChange ''a'' ''x'' initial_editor)) = []"
proof -
  have h: "recordingDir (handleTextChange ''a'' ''x'' initial_editor) = []"
    by (simp add: handleTextChange_def initial_editor_def)
  have "invoked (handleTextChange ''a'' ''x'' initial_editor) = []"
    by (simp add: handleTextChange_def initial_editor_def)
  with h save_without_directory [OF h, of "Inr ()"] show ?thesis by simp
qed

section \<open>What is persisted of an edited transcript\<close>

text \<open>
  Claim C1: for an edited segment list that the editor saves with a directory set, the
  transcript that \<^verbatim>\<open>save_edited_transcript\<close> persists has its derived fields re-derived
  from the segments: the full text is rebuilt from the segment list and the duration is
  the largest end time of the segments, whatever derived fields the caller supplies. The
  editor rebuilds the full text itself but hands over the duration it loaded
  (\<open>editor_hands_over_state_duration\<close>); the persisted duration does not depend on it. In
  particular, after the last-ending segment has been deleted, the persisted duration is
  the new largest end time: in the witness 5, where 10 was loaded and handed over.
\<close>

theorem persisted_fields_rederived:
  assumes "recordingDir st \<noteq> []" and "segments_st st \<noteq> []"
  shows "command (last (invoked (handleSave reply st))) = ''save_edited_transcript''
       \<and> save_edited_transcript system_secs mic_secs True
           (arg_recordingDir (last (invoked (handleSave reply st))))
           (arg_transcript (last (invoked (handleSave reply st)))) store
         = Inr (store(recordingDir st \<mapsto>
             \<lparr>segments = segments_st st,
              full_text = spec_full_text (segments_st st),
              duration = Max (end_time ` set (segments_st st))\<rparr>))
       \<and> save_edited_transcript system_secs mic_secs True dir
           (t\<lparr>full_text := supplied_text, duration := supplied_duration\<rparr>) store
         = save_edited_transcript system_secs mic_secs True dir t store"
  using assms editor_hands_over_state_duration [OF assms(1), of reply]
  by (simp add: save_edited_transcript_def total_duration_def max_end_time_Max)

theorem persisted_fields_rederived_witness:
  "recordingDir (handleDelete ''c'' loaded_editor) \<noteq> []
   \<and> segments_st (handleDelete ''c'' loaded_editor) \<noteq> []
   \<and> duration (arg_transcript (last (invoked (handleSave (Inr ()) (handleDelete ''c'' loaded_editor))))) = 10
   \<and> save_edited_transcript 10 9 True
        (arg_recordingDir (last (invoked (handleSave (Inr ()) (handleDelete ''c'' loaded_editor)))))
        (arg_transcript (last (invoked (handleSave (Inr ()) (handleDelete ''c'' loaded_editor)))))
        Map.empty
      = Inr (Map.empty(''rec'' \<mapsto>
          \<lparr>segments = [seg_a, seg_b],
           full_text = ''[Meeting] hi'' @ [CHR 0x0A] @ ''[Me] hey'',
           duration = 5\<rparr>))"
proof -
  have h1: "recordingDir (handleDelete ''c'' loaded_editor) \<noteq> []"
    by (simp add: handleDelete_def loaded_directory)
  have segs: "segments_st (handleDelete ''c'' loaded_editor) = [seg_a, seg_b]"
    by (simp add: handleDelete_def loaded_segments seg_a_def seg_b_def seg_c_def)
  then have h2: "segments_st (handleDelete ''c'' loaded_editor) \<noteq> []" by simp
  have dir: "recordingDir (handleDelete ''c'' loaded_editor) = ''rec''"
    by (simp add: handleDelete_def loaded_directory)
  have handed: "duration (arg_transcript (last (invoked (handleSave (Inr ()) (handleDelete ''c'' loaded_editor))))) = 10"
    using editor_hands_over_state_duration [OF h1, of "Inr ()"]
    by (simp add: handleDelete_def loaded_duration)
  have t: "spec_full_text [seg_a, seg_b] = ''[Meeting] hi'' @ [CHR 0x0A] @ ''[Me] hey''"
    by (simp add: seg_a_def seg_b_def)
  have m: "Max (end_time ` set [seg_a, seg_b]) = 5"
    by (simp add: seg_a_def seg_b_def)
  note w = persisted_fields_rederived [OF h1 h2, of "Inr ()" 10 9 Map.empty, THEN conjunct2, THEN conjunct1]
  have "save_edited_transcript 10 9 True
        (arg_recordingDir (last (invoked (handleSave (Inr ()) (handleDelete ''c'' loaded_editor)))))
        (arg_transcript (last (invoked (handleSave (Inr ()) (handleDelete ''c'' loaded_editor)))))
        Map.empty
      = Inr (Map.empty(''rec'' \<mapsto>
          \<lparr>segments = [seg_a, seg_b],
           full_text = ''[Meeting] hi'' @ [CHR 0x0A] @ ''[Me] hey'',
           duration = 5\<rparr>))"
    using w by (simp only: segs dir t m)
  with h1 h2 handed show ?thesis by (intro conjI)
qed

section \<open>Time formatting\<close>

text \<open>
  Claim C10, as stated for every non-negative finite number, fails for large numbers,
  because the division \<^verbatim>\<open>seconds / 60\<close> is rounded to binary64 before \<^verbatim>\<open>Math.floor\<close>
  is applied. At \<open>400000000000000000\<close> seconds, a binary64 number, the exact quotient
  \<open>6666666666666666.67\<close> lies in a binade whose binary64 numbers are the integers, and
  rounds up: the code prints \<open>6666666666666667:40\<close>, the claimed string is
  \<open>6666666666666666:40\<close>.
\<close>

theorem formatTime_large_counterexample:
  "is_binary64 400000000000000000
   \<and> formatTime unrendered 400000000000000000 = ''6666666666666667:40''
   \<and> decimal (nat \<lfloor>400000000000000000 / (60::real)\<rfloor>) @ '':''
        @ two_digits (nat (\<lfloor>400000000000000000 :: real\<rfloor> mod 60)) = ''6666666666666666:40''
   \<and> formatTime unrendered 400000000000000000
        \<noteq> decimal (nat \<lfloor>400000000000000000 / (60::real)\<rfloor>) @ '':''
            @ two_digits (nat (\<lfloor>400000000000000000 :: real\<rfloor> mod 60))"
proof -
  have f: "\<lfloor>400000000000000000 / (60::real)\<rfloor> = 6666666666666666"
          "\<lfloor>400000000000000000 :: real\<rfloor> mod 60 = 40" by simp_all
  have r: "\<lfloor>js_rem 400000000000000000 60\<rfloor> = 40"
    using floor_rem_60 [of 400000000000000000] by (simp add: f)
  have t: "two_digits 40 = ''40''" "padStart (decimal 40) 2 ''0'' = ''40''"
    by (simp_all add: two_digits_def pad_two digit_char_all)
  have l: "formatTime unrendered 400000000000000000 = ''6666666666666667:40''"
    by (simp add: formatTime_def Let_def round_4e17 r toString_def decimal_minutes t)
  have c: "decimal (nat \<lfloor>400000000000000000 / (60::real)\<rfloor>) @ '':''
        @ two_digits (nat (\<lfloor>400000000000000000 :: real\<rfloor> mod 60)) = ''6666666666666666:40''"
    by (simp add: f decimal_minutes t)
  have "formatTime unrendered 400000000000000000
        \<noteq> decimal (nat \<lfloor>400000000000000000 / (60::real)\<rfloor>) @ '':''
            @ two_digits (nat (\<lfloor>400000000000000000 :: real\<rfloor> mod 60))"
    by (simp only: l c) simp
  with binary64_4e17 l c show ?thesis by (intro conjI)
qed

text \<open>
  Claim C10, amended: for every binary64 number of seconds \<open>s\<close> with \<open>0 \<le> s < 2\<^sup>5\<^sup>3\<close>,
  \<^verbatim>\<open>formatTime\<close> returns the decimal digits of \<open>\<lfloor>s / 60\<rfloor>\<close>, a colon, and the two-digit
  zero-padded value of \<open>\<lfloor>s\<rfloor> mod 60\<close>: fractions of a second are dropped and the minutes
  are not wrapped into hours. The two digit strings are pinned down by reading them back:
  the first denotes \<open>\<lfloor>s / 60\<rfloor>\<close> and has no leading zero, the second has two digits and
  denotes \<open>\<lfloor>s\<rfloor> mod 60\<close>. The witness evaluates 3600 (\<open>60:00\<close>) and 65.5 (\<open>1:05\<close>).
\<close>

theorem formatTime_minutes_seconds:
  assumes "is_binary64 s" "0 \<le> s" "s < 2 ^ 53"
  shows "formatTime beyond s = decimal (nat \<lfloor>s / 60\<rfloor>) @ '':'' @ two_digits (nat (\<lfloor>s\<rfloor> mod 60))
       \<and> numeral_value (decimal (nat \<lfloor>s / 60\<rfloor>)) = Some (nat \<lfloor>s / 60\<rfloor>)
       \<and> (1 < length (decimal (nat \<lfloor>s / 60\<rfloor>)) \<longrightarrow> hd (decimal (nat \<lfloor>s / 60\<rfloor>)) \<noteq> CHR ''0'')
       \<and> length (two_digits (nat (\<lfloor>s\<rfloor> mod 60))) = 2
       \<and> numeral_value (two_digits (nat (\<lfloor>s\<rfloor> mod 60))) = Some (nat (\<lfloor>s\<rfloor> mod 60))"
proof -
  have "1 < length (decimal n) \<Longrightarrow> n \<noteq> 0" for n
    by (cases "n = 0") (simp_all add: decimal_lt10)
  then have lead: "1 < length (decimal n) \<longrightarrow> hd (decimal n) \<noteq> CHR ''0''" for n
    using decimal_no_leading_zero by blast
  have "\<lfloor>s\<rfloor> mod 60 < 60" by simp
  then have "nat (\<lfloor>s\<rfloor> mod 60) < 100" by simp
  then have two: "numeral_value (two_digits (nat (\<lfloor>s\<rfloor> mod 60))) = Some (nat (\<lfloor>s\<rfloor> mod 60))"
    by (rule numeral_value_two_digits)
  have len: "length (two_digits (nat (\<lfloor>s\<rfloor> mod 60))) = 2" by (simp add: two_digits_def)
  from format_exact [OF assms] numeral_value_decimal lead two len show ?thesis by blast
qed

theorem formatTime_minutes_seconds_witness:
  "is_binary64 3600 \<and> (0::real) \<le> 3600 \<and> (3600::real) < 2 ^ 53
   \<and> formatTime unrendered 3600 = ''60:00''
   \<and> is_binary64 (131 / 2) \<and> (0::real) \<le> 131 / 2 \<and> (131 / 2 :: real) < 2 ^ 53
   \<and> formatTime unrendered (131 / 2) = ''1:05''"
proof -
  have a: "\<lfloor>(3600::real) / 60\<rfloor> = 60" "\<lfloor>3600::real\<rfloor> mod 60 = 0" by simp_all
  have b: "\<lfloor>(131 / 2 :: real) / 60\<rfloor> = 1" "\<lfloor>131 / 2 :: real\<rfloor> mod 60 = 5" by simp_all
  have d: "decimal 60 = ''60''"
    by (simp add: decimal_ge10 decimal_lt10 digit_char_all)
  have h1: "(0::real) \<le> 3600" "(3600::real) < 2 ^ 53"
    and h2: "(0::real) \<le> 131 / 2" "(131 / 2 :: real) < 2 ^ 53" by simp_all
  note w1 = formatTime_minutes_seconds [OF binary64_3600 h1, of unrendered, THEN conjunct1]
  note w2 = formatTime_minutes_seconds [OF binary64_65_5 h2, of unrendered, THEN conjunct1]
  have "formatTime unrendered 3600 = ''60:00''"
    using w1 by (simp add: a d two_digits_def decimal_lt10 digit_char_all)
  moreover have "formatTime unrendered (131 / 2) = ''1:05''"
    using w2 by (simp add: b two_digits_def decimal_lt10 digit_char_all)
  ultimately show ?thesis using binary64_3600 binary64_65_5 h1 h2 by (intro conjI)
qed

section \<open>The merge of two segment lists\<close>

lemma merge_mset: "mset (merge_segments xs ys) = mset xs + mset ys"
  by (induction xs ys rule: merge_segments.induct) simp_all

lemma merge_set: "set (merge_segments xs ys) = set xs \<union> set ys"
  using merge_mset [of xs ys] by (metis set_mset_mset set_mset_union)

lemma merge_sorted:
  "sorted_by_start xs \<Longrightarrow> sorted_by_start ys \<Longrightarrow> sorted_by_start (merge_segments xs ys)"
proof (induction xs ys rule: merge_segments.induct)
  case (1 right)
  then show ?case by simp
next
  case (2 l left)
  then show ?case by simp
next
  case (3 l left r right)
  show ?case
  proof (cases "start_time l \<le> start_time r")
    case True
    with 3 have "sorted_by_start (merge_segments left (r # right))"
      by (simp add: sorted_by_start_def)
    moreover have "\<forall>s \<in> set (merge_segments left (r # right)). start_time l \<le> start_time s"
      using 3(3,4) True by (auto simp: merge_set sorted_by_start_def)
    ultimately show ?thesis using True by (simp add: sorted_by_start_def)
  next
    case False
    with 3 have "sorted_by_start (merge_segments (l # left) right)"
      by (simp add: sorted_by_start_def)
    moreover have "\<forall>s \<in> set (merge_segments (l # left) right). start_time r \<le> start_time s"
      using 3(3,4) False by (auto simp: merge_set sorted_by_start_def)
    ultimately show ?thesis using False by (simp add: sorted_by_start_def)
  qed
qed

lemma later_starts_filtered:
  "sorted_by_start (l # left) \<Longrightarrow> t < start_time l \<Longrightarrow>
   filter (\<lambda>s. start_time s = t) (l # left) = []"
  by (auto simp: sorted_by_start_def filter_empty_conv)

lemma merge_stable:
  "sorted_by_start xs \<Longrightarrow> sorted_by_start ys \<Longrightarrow>
   filter (\<lambda>s. start_time s = t) (merge_segments xs ys)
     = filter (\<lambda>s. start_time s = t) xs @ filter (\<lambda>s. start_time s = t) ys"
proof (induction xs ys rule: merge_segments.induct)
  case (1 right)
  then show ?case by simp
next
  case (2 l left)
  then show ?case by simp
next
  case (3 l left r right)
  show ?case
  proof (cases "start_time l \<le> start_time r")
    case True
    with 3 show ?thesis by (simp add: sorted_by_start_def)
  next
    case False
    have tail: "filter (\<lambda>s. start_time s = t) (merge_segments (l # left) right)
          = filter (\<lambda>s. start_time s = t) (l # left) @ filter (\<lambda>s. start_time s = t) right"
      using 3 False by (simp add: sorted_by_start_def)
    show ?thesis
    proof (cases "start_time r = t")
      case True
      with False have "t < start_time l" by simp
      from later_starts_filtered [OF 3(3) this] tail True False
      show ?thesis by simp
    next
      case ne: False
      with tail False show ?thesis by simp
    qed
  qed
qed

lemma merge_keeps_sources:
  assumes "homogeneous a xs" "homogeneous b ys" "a \<noteq> b"
  shows "filter (\<lambda>s. speaker s = a) (merge_segments xs ys) = xs
       \<and> filter (\<lambda>s. speaker s = b) (merge_segments xs ys) = ys"
  using assms
  by (induction xs ys rule: merge_segments.induct)
     (auto simp: homogeneous_def list_all_iff filter_id_conv filter_empty_conv)

text \<open>
  Claim C2: for two segment lists that are each sorted by start time, the merge is
  sorted by non-decreasing start time, holds exactly the segments of both lists (as a
  multiset), and is stable: for every start time \<open>t\<close>, the segments that start at \<open>t\<close>
  appear in the merge as they do in the first list, followed by those of the second list
  in their order. The homogeneous speaker labels of the inputs are not needed for this;
  with distinct labels, \<open>merge_keeps_sources\<close> shows that each input is found again, in
  its order, as the segments of its label.
\<close>

theorem merge_sorted_complete_stable:
  assumes "sorted_by_start xs" "sorted_by_start ys"
  shows "sorted_by_start (merge_segments xs ys)
       \<and> mset (merge_segments xs ys) = mset xs + mset ys
       \<and> filter (\<lambda>s. start_time s = t) (merge_segments xs ys)
           = filter (\<lambda>s. start_time s = t) xs @ filter (\<lambda>s. start_time s = t) ys"
  using assms by (simp add: merge_sorted merge_mset merge_stable)

theorem merge_sorted_complete_stable_witness:
  "sorted_by_start [seg_a, seg_c] \<and> sorted_by_start [seg_b, seg_d]
   \<and> merge_segments [seg_a, seg_c] [seg_b, seg_d] = [seg_a, seg_b, seg_c, seg_d]
   \<and> sorted_by_start (merge_segments [seg_a, seg_c] [seg_b, seg_d])
   \<and> filter (\<lambda>s. start_time s = 5) (merge_segments [seg_a, seg_c] [seg_b, seg_d]) = [seg_c, seg_d]"
proof -
  have h1: "sorted_by_start [seg_a, seg_c]" and h2: "sorted_by_start [seg_b, seg_d]"
    by (simp_all add: sorted_by_start_def seg_a_def seg_b_def seg_c_def seg_d_def)
  have m: "merge_segments [seg_a, seg_c] [seg_b, seg_d] = [seg_a, seg_b, seg_c, seg_d]"
    by (simp add: seg_a_def seg_b_def seg_c_def seg_d_def)
  have f: "filter (\<lambda>s. start_time s = 5) [seg_a, seg_c] @ filter (\<lambda>s. start_time s = 5) [seg_b, seg_d]
           = [seg_c, seg_d]"
    by (simp add: seg_a_def seg_b_def seg_c_def seg_d_def)
  note w = merge_sorted_complete_stable [OF h1 h2, of 5]
  have s: "sorted_by_start (merge_segments [seg_a, seg_c] [seg_b, seg_d])"
    by (rule w [THEN conjunct1])
  have "filter (\<lambda>s. start_time s = 5) (merge_segments [seg_a, seg_c] [seg_b, seg_d]) = [seg_c, seg_d]"
    using w [THEN conjunct2, THEN conjunct2] by (simp only: f)
  with h1 h2 m s show ?thesis by (intro conjI)
qed

section \<open>Merging with an empty list\<close>

lemma merge_right_empty: "merge_segments xs [] = xs"
  by (cases xs) simp_all

text \<open>
  Claim C4: for a non-empty segment list \<open>L\<close>, the merged transcript of \<open>L\<close> and the
  empty list, on either side, has the segments \<open>L\<close> unchanged, the full text derived
  from \<open>L\<close> and the largest end time of \<open>L\<close> as its duration. The merge does not need
  a non-empty input: two empty lists give the empty transcript, whose duration is the
  longer of the two recordings.
\<close>

theorem merge_with_empty:
  assumes "L \<noteq> []"
  shows "merge_transcripts L a [] b =
           \<lparr>segments = L, full_text = spec_full_text L, duration = Max (end_time ` set L)\<rparr>
       \<and> merge_transcripts [] a L b =
           \<lparr>segments = L, full_text = spec_full_text L, duration = Max (end_time ` set L)\<rparr>
       \<and> merge_transcripts [] a [] b = \<lparr>segments = [], full_text = [], duration = max a b\<rparr>"
  using assms
  by (simp add: merge_transcripts_def Let_def merge_right_empty total_duration_def max_end_time_Max)

theorem merge_with_empty_witness:
  "[seg_a, seg_c] \<noteq> []
   \<and> merge_transcripts [seg_a, seg_c] 7 [] 9 =
       \<lparr>segments = [seg_a, seg_c],
        full_text = ''[Meeting] hi'' @ [CHR 0x0A] @ ''[Meeting] there'',
        duration = 10\<rparr>
   \<and> merge_transcripts [] 7 [seg_a, seg_c] 9 = merge_transcripts [seg_a, seg_c] 7 [] 9"
proof -
  have h: "[seg_a, seg_c] \<noteq> []" by simp
  have t: "spec_full_text [seg_a, seg_c] = ''[Meeting] hi'' @ [CHR 0x0A] @ ''[Meeting] there''"
    by (simp add: seg_a_def seg_c_def)
  have d: "Max (end_time ` set [seg_a, seg_c]) = 10"
    by (simp add: seg_a_def seg_c_def)
  from merge_with_empty [OF h, of 7 9] show ?thesis
    by (simp only: t d) simp
qed

text \<open>
  The merge-ordering example of the specification: segments at 0 and 5 of one source and
  a segment at 2 of the other come out in the order 0, 2, 5.
\<close>

lemma merge_example:
  "merge_transcripts [seg_a, seg_c] 10 [seg_b] 9 =
     \<lparr>segments = [seg_a, seg_b, seg_c],
      full_text = spec_full_text [seg_a, seg_b, seg_c],
      duration = 10\<rparr>"
  by (simp add: merge_transcripts_def Let_def total_duration_def max_end_time_def
        seg_a_def seg_b_def seg_c_def)

section \<open>State errors of the Capture Controller\<close>

text \<open>
  Claim C7: \<^verbatim>\<open>start_recording\<close> in a state other than \<open>Idle\<close> fails with the error
  "already recording", and \<^verbatim>\<open>stop_recording\<close> in a state other than \<open>Recording\<close> fails
  with the invalid-state error; in both cases no work has been started and the
  controller is returned as it was.
\<close>

theorem state_errors_rejected:
  "(\<not> is_Idle c \<longrightarrow> start_recording env c = (Inl AlreadyRecording, c, []))
   \<and> (\<not> is_Recording c \<longrightarrow> stop_recording failure c = (Inl NotRecording, c, []))"
  by (cases c) (simp_all add: start_recording_def stop_recording_def)

theorem state_errors_rejected_witness:
  "\<not> is_Idle (Recording a_session)
   \<and> start_recording a_start (Recording a_session) = (Inl AlreadyRecording, Recording a_session, [])
   \<and> \<not> is_Recording Idle
   \<and> stop_recording None Idle = (Inl NotRecording, Idle, [])"
  using state_errors_rejected [of "Recording a_session" a_start None]
        state_errors_rejected [of Idle a_start None]
  by simp

text \<open>
  In the right state both commands go through, and a second \<^verbatim>\<open>stop_recording\<close> in a
  row is rejected as a state error.
\<close>

lemma start_from_idle:
  "start_recording a_start Idle =
     (Inr (),
      Recording \<lparr>session_directory = ''2026-01-15_10-35-00'', start_instant = 200,
                 system_samples = 0, mic_samples = 0\<rparr>,
      [CreateDirectory ''2026-01-15_10-35-00'', AcquireSource Loopback, AcquireSource InputDevice])"
  by (simp add: start_recording_def a_start_def acquire_error_def)

lemma stop_twice:
  "fst (snd (stop_recording failure (Recording s))) = Idle
   \<and> fst (stop_recording again (fst (snd (stop_recording failure (Recording s))))) = Inl NotRecording"
  by (cases failure) (simp_all add: stop_recording_def Let_def)

section \<open>Recording statistics\<close>

text \<open>
  Claim C6: \<^verbatim>\<open>get_recording_stats\<close> gives the absent result in every state other than
  \<open>Recording\<close>, in particular in \<open>Idle\<close>, and the snapshot of duration and sample counts
  while recording. The polling callback of the recorder window takes the absent result
  as a valid outcome: the state of the window is unchanged and nothing is written to the
  error console, whereas a rejected call is written there.
\<close>

theorem stats_absent_unless_recording:
  "(\<not> is_Recording c \<longrightarrow> get_recording_stats t c = None)
   \<and> get_recording_stats t Idle = None
   \<and> get_recording_stats t (Recording s) =
        Some \<lparr>duration_secs = t - start_instant s,
              system_samples_written = system_samples s,
              mic_samples_written = mic_samples s\<rparr>
   \<and> poll_tick env (Inr (get_recording_stats t Idle)) ui = ui
   \<and> console_errors (poll_tick env (Inr None) ui) = console_errors ui
   \<and> console_errors (poll_tick env (Inl e) ui) =
        console_errors ui @ [''Failed to get recording stats: '' @ e]"
  by (cases c) (simp_all add: get_recording_stats_def poll_tick_def)

theorem stats_absent_unless_recording_witness:
  "\<not> is_Recording (Stopping a_session)
   \<and> get_recording_stats 130 (Stopping a_session) = None
   \<and> get_recording_stats 130 (Recording a_session) =
        Some \<lparr>duration_secs = 30, system_samples_written = 96000, mic_samples_written = 48000\<rparr>
   \<and> poll_tick (Notifier True []) (Inr (get_recording_stats 130 Idle)) polling_ui = polling_ui"
  using stats_absent_unless_recording
          [of "Stopping a_session" 130 a_session "Notifier True []" polling_ui "''x''"]
  by (auto simp: a_session_def)

text \<open>With a snapshot, the callback stores the elapsed time and checks the milestones.\<close>

lemma poll_with_stats:
  "poll_tick (Notifier True []) (Inr (get_recording_stats 2000 (Recording a_session))) polling_ui =
     polling_ui\<lparr>elapsedTime := 1900,
             warning := Some ''Recording has been running for 30 minutes'',
             milestonesReached := {1800},
             notifications := [''Recording has been running for 30 minutes''],
             dismiss_timers := 1\<rparr>"
  by (simp add: poll_tick_def get_recording_stats_def a_session_def polling_ui_def MILESTONES_def
        send_milestone_notification_def Let_def)

end
